theory Spec2Isabelle
  imports Complex_Main "HOL-Library.Log_Nat"
begin

section \<open>Data model of \<open>main.py\<close>\<close>

text \<open>
  A component's status is one of the two strings \<open>"UP"\<close> and \<open>"DOWN"\<close>. The attributes of
  the class \<open>Component\<close> are the fields of a record; loads, times and costs are Python
  integers. The attribute \<open>dependencies\<close> holds references to shared objects: a database
  refers to the network object, a server to the two database objects. The topology is
  wired once at module level and never changed, so the dependencies of a component are
  read from the current state of its upstream tier instead of being stored.
\<close>

datatype status = UP | DOWN

record component =
  name :: string
  max_load :: int
  cost_per_step :: int
  load :: int
  status :: status
  down_since :: "int option"
  recovery_time :: int
  recovery_history :: "int list"
  degraded :: bool

definition Component :: "string \<Rightarrow> int \<Rightarrow> int \<Rightarrow> int \<Rightarrow> component" where
  "Component n ml c rt =
     \<lparr>name = n, max_load = ml, cost_per_step = c, load = 0, status = UP,
      down_since = None, recovery_time = rt, recovery_history = [], degraded = False\<rparr>"

type_synonym event = "int \<times> string \<times> string"

text \<open>The module-level globals: the three tiers and the tracking variables.\<close>

record sys =
  network :: component
  databases :: "component list"
  servers :: "component list"
  failure_timeline :: "event list"
  current_time :: int
  system_down_time :: "int option"
  total_failure_cost :: int

definition init :: sys where
  "init =
     \<lparr>network = Component ''Network'' 80 5000 3,
      databases = [Component ''Database-1'' 100 20000 2, Component ''Database-2'' 100 20000 2],
      servers = [Component ''WebServer-1'' 120 15000 1, Component ''WebServer-2'' 120 15000 1],
      failure_timeline = [], current_time = 0, system_down_time = None,
      total_failure_cost = 0\<rparr>"

definition all_components :: "sys \<Rightarrow> component list" where
  "all_components s = [network s] @ databases s @ servers s"

section \<open>Core logic of \<open>main.py\<close>\<close>

text \<open>
  \<open>inject_failure\<close> receives a component object. The model names the object by its place
  in the topology; a place outside the two lists is the \<open>IndexError\<close> of the caller's
  lookup, the value \<open>None\<close>.
\<close>

datatype cref = Net | Db nat | Srv nat

definition lookup :: "cref \<Rightarrow> sys \<Rightarrow> component option" where
  "lookup r s =
     (case r of
        Net \<Rightarrow> Some (network s)
      | Db i \<Rightarrow> (if i < length (databases s) then Some (databases s ! i) else None)
      | Srv i \<Rightarrow> (if i < length (servers s) then Some (servers s ! i) else None))"

definition store :: "cref \<Rightarrow> component \<Rightarrow> sys \<Rightarrow> sys" where
  "store r c s =
     (case r of
        Net \<Rightarrow> s\<lparr>network := c\<rparr>
      | Db i \<Rightarrow> s\<lparr>databases := (databases s)[i := c]\<rparr>
      | Srv i \<Rightarrow> s\<lparr>servers := (servers s)[i := c]\<rparr>)"

definition fail_now :: "int \<Rightarrow> component \<Rightarrow> component" where
  "fail_now t c = c\<lparr>status := DOWN, down_since := Some t\<rparr>"

definition inject_failure :: "cref \<Rightarrow> sys \<Rightarrow> sys option" where
  "inject_failure r s =
     (case lookup r s of
        None \<Rightarrow> None
      | Some c \<Rightarrow>
          Some (store r (fail_now (current_time s) c)
                  (s\<lparr>failure_timeline :=
                       failure_timeline s @ [(current_time s, name c, ''Injected failure'')]\<rparr>)))"

text \<open>
  \<open>update_component\<close> on one component, given the current state of its dependencies and
  the global time; it returns the component and the events it appends to the timeline.
\<close>

definition update_component :: "int \<Rightarrow> component list \<Rightarrow> component \<Rightarrow> component \<times> event list" where
  "update_component t deps c =
     (if status c = DOWN then (c, [])
      else
        let c1 = c\<lparr>load := foldl (\<lambda>l d. if status d = DOWN then l + 50 else l) (load c) deps\<rparr>
        in if load c1 > max_load c1
           then (fail_now t c1, [(t, name c1, ''Overload due to dependency failure'')])
           else (c1, []))"

definition update_databases :: "sys \<Rightarrow> sys" where
  "update_databases s =
     (let rs = map (update_component (current_time s) [network s]) (databases s)
      in s\<lparr>databases := map fst rs,
           failure_timeline := failure_timeline s @ concat (map snd rs)\<rparr>)"

definition update_servers :: "sys \<Rightarrow> sys" where
  "update_servers s =
     (let rs = map (update_component (current_time s) (databases s)) (servers s)
      in s\<lparr>servers := map fst rs,
           failure_timeline := failure_timeline s @ concat (map snd rs)\<rparr>)"

text \<open>
  The load balancer. The body of its loop on one active server is \<open>balance\<close>. The test
  \<open>0.8 * srv.max_load < srv.load\<close> is written over the integers as
  \<open>4 * max_load < 5 * load\<close>; for the servers' capacity 120 the product \<open>0.8 * 120\<close> is
  the float 96.0, so both read \<open>96 < load\<close>.
\<close>

definition balance :: "int \<Rightarrow> int \<Rightarrow> component \<Rightarrow> component \<times> event list" where
  "balance t share c =
     (let c1 = c\<lparr>load := load c + share\<rparr>;
          c2 = (if 4 * max_load c1 < 5 * load c1 \<and> load c1 \<le> max_load c1
                then c1\<lparr>degraded := True\<rparr> else c1)
      in if load c2 > max_load c2
         then (fail_now t c2, [(t, name c2, ''Traffic overload'')])
         else (c2, []))"

definition distribute_traffic :: "int \<Rightarrow> sys \<Rightarrow> sys" where
  "distribute_traffic total_traffic s =
     (let active_servers = filter (\<lambda>c. status c = UP) (servers s)
      in if active_servers = [] then s
         else
           let traffic_per_server = total_traffic div int (length active_servers);
               rs = map (\<lambda>c. if status c = UP
                              then balance (current_time s) traffic_per_server c
                              else (c, [])) (servers s)
           in s\<lparr>servers := map fst rs,
                failure_timeline := failure_timeline s @ concat (map snd rs)\<rparr>)"

definition recover_component :: "int \<Rightarrow> component \<Rightarrow> component" where
  "recover_component t c =
     (case down_since c of
        None \<Rightarrow> c
      | Some d \<Rightarrow>
          if status c = DOWN \<and> t - d \<ge> recovery_time c
          then c\<lparr>status := UP, load := 0, degraded := False, down_since := None,
                 recovery_history := recovery_history c @ [t - d]\<rparr>
          else c)"

definition recover_components :: "sys \<Rightarrow> sys" where
  "recover_components s =
     s\<lparr>network := recover_component (current_time s) (network s),
       databases := map (recover_component (current_time s)) (databases s),
       servers := map (recover_component (current_time s)) (servers s)\<rparr>"

definition system_down :: "sys \<Rightarrow> bool" where
  "system_down s =
     (list_all (\<lambda>db. status db = DOWN) (databases s)
      \<or> list_all (\<lambda>srv. status srv = DOWN) (servers s))"

section \<open>The simulation loop of \<open>main.py\<close>\<close>

definition accrue_cost :: "sys \<Rightarrow> sys" where
  "accrue_cost s =
     s\<lparr>total_failure_cost :=
         foldl (\<lambda>acc comp. if status comp = DOWN then acc + cost_per_step comp else acc)
           (total_failure_cost s) (all_components s)\<rparr>"

definition record_system_down :: "sys \<Rightarrow> sys" where
  "record_system_down s =
     (if system_down s \<and> system_down_time s = None
      then s\<lparr>system_down_time := Some (current_time s)\<rparr> else s)"

text \<open>The body of the loop of \<open>simulate\<close> for the loop variable \<open>t\<close>, statement by statement.\<close>

definition step :: "int \<Rightarrow> sys \<Rightarrow> sys" where
  "step t s =
     (let s0 = s\<lparr>current_time := t\<rparr>;
          s1 = update_databases s0;
          s2 = update_servers s1;
          s3 = distribute_traffic 120 s2;
          s4 = accrue_cost s3;
          s5 = record_system_down s4
      in recover_components s5)"

definition simulate :: "int \<Rightarrow> sys \<Rightarrow> sys" where
  "simulate time_steps s = foldl (\<lambda>s t. step t s) s [1..time_steps]"

section \<open>Metrics and reset of \<open>main.py\<close>\<close>


subsection \<open>Python's floats\<close>

text \<open>
  A Python \<open>float\<close> is an IEEE 754 double; the model holds it by its exact rational value.
  \<open>to_double q\<close> is the double nearest to the rational \<open>q\<close>, ties to the even mantissa:
  the mantissa has 53 bits, so the unit in the last place is \<open>2 ^ (\<lfloor>log2 |q|\<rfloor> - 52)\<close>, and
  never less than the smallest subnormal \<open>2 ^ -1074\<close>. \<open>ilog2 q\<close> is \<open>\<lfloor>log2 q\<rfloor>\<close> for a positive
  \<open>q\<close>, from the bit lengths of its numerator and denominator.
\<close>

datatype py_error = ZeroDivisionError | OverflowError

datatype number = IntVal int | FloatVal rat

definition pow2 :: "int \<Rightarrow> rat" where
  "pow2 e = (if 0 \<le> e then 2 ^ nat e else 1 / 2 ^ nat (- e))"

definition round_half_even :: "rat \<Rightarrow> int" where
  "round_half_even q =
     (let f = \<lfloor>q\<rfloor>; r = q - of_int f
      in if r < 1 / 2 then f else if 1 / 2 < r then f + 1 else if even f then f else f + 1)"

definition ilog2 :: "rat \<Rightarrow> int" where
  "ilog2 q =
     (case quotient_of q of
        (n, d) \<Rightarrow> let k = bitlen n - bitlen d in if pow2 k \<le> q then k else k - 1)"

definition to_double :: "rat \<Rightarrow> rat" where
  "to_double q =
     (if q = 0 then 0
      else let e = max (ilog2 \<bar>q\<bar> - 52) (- 1074)
           in sgn q * of_int (round_half_even (\<bar>q\<bar> / pow2 e)) * pow2 e)"

text \<open>
  \<open>a / b\<close> on two Python integers: \<open>ZeroDivisionError\<close> for \<open>b = 0\<close>, otherwise the double
  nearest to the exact quotient, and \<open>OverflowError\<close> where that is beyond the largest
  double. \<open>round(x, 2)\<close> on a float \<open>x\<close> rounds the exact value of \<open>x\<close> to two decimals, ties
  to the even digit, and returns the double nearest to that decimal.
\<close>

definition true_div :: "int \<Rightarrow> int \<Rightarrow> py_error + rat" where
  "true_div a b =
     (if b = 0 then Inl ZeroDivisionError
      else let r = to_double (of_int a / of_int b)
           in if pow2 1024 \<le> \<bar>r\<bar> then Inl OverflowError else Inr r)"

definition py_round2 :: "rat \<Rightarrow> rat" where
  "py_round2 x = to_double (of_int (round_half_even (100 * x)) / 100)"

subsection \<open>Mean time to recovery and reset\<close>

text \<open>
  The arithmetic mean of all entries of the recovery histories of the components \<open>cs\<close>, as
  the specification words it: their sum over their number, an exact rational (0 where
  there is no entry, as HOL divides by 0).
\<close>

definition recovery_mean :: "component list \<Rightarrow> rat" where
  "recovery_mean cs =
     of_int (\<Sum>c\<leftarrow>cs. sum_list (recovery_history c))
     / of_int (\<Sum>c\<leftarrow>cs. int (length (recovery_history c)))"

text \<open>
  \<open>sum(times) / len(times) if times else 0\<close>: the float of the true division, or the
  integer 0.
\<close>

definition calculate_mttr :: "sys \<Rightarrow> py_error + number" where
  "calculate_mttr s =
     (let times = concat (map recovery_history (all_components s))
      in if times \<noteq> []
         then (case true_div (sum_list times) (int (length times)) of
                 Inl e \<Rightarrow> Inl e
               | Inr x \<Rightarrow> Inr (FloatVal x))
         else Inr (IntVal 0))"

definition reset_component :: "component \<Rightarrow> component" where
  "reset_component c = c\<lparr>status := UP, load := 0, down_since := None, degraded := False\<rparr>"

definition reset_system :: "sys \<Rightarrow> sys" where
  "reset_system s =
     s\<lparr>failure_timeline := [], current_time := 0, system_down_time := None,
       total_failure_cost := 0,
       network := reset_component (network s),
       databases := map reset_component (databases s),
       servers := map reset_component (servers s)\<rparr>"

section \<open>The engine of \<open>dashboard.py\<close>\<close>

text \<open>
  The dashboard carries its own copy of the engine. Its class \<open>Component\<close> has the
  attributes of the one in \<open>main.py\<close> without \<open>degraded\<close>, and calls the cost per step
  \<open>cost\<close>; it is held in the same record, whose field \<open>degraded\<close> no dashboard function
  writes. The session state holds the three tiers, the time and the cost;
  \<open>session_state.components\<close> lists the same objects again and is read off the tiers.
\<close>

record session_state =
  ss_network :: component
  ss_databases :: "component list"
  ss_servers :: "component list"
  ss_time :: int
  ss_cost :: int

definition init_system :: "component \<times> component list \<times> component list" where
  "init_system =
     (Component ''Network'' 80 5000 3,
      [Component ''Database-1'' 100 20000 2, Component ''Database-2'' 100 20000 2],
      [Component ''WebServer-1'' 120 15000 1, Component ''WebServer-2'' 120 15000 1])"

definition dash_init :: session_state where
  "dash_init =
     (case init_system of
        (net, dbs, srvs) \<Rightarrow>
          \<lparr>ss_network = net, ss_databases = dbs, ss_servers = srvs, ss_time = 0, ss_cost = 0\<rparr>)"

definition ss_components :: "session_state \<Rightarrow> component list" where
  "ss_components s = [ss_network s] @ ss_databases s @ ss_servers s"

definition dash_lookup :: "cref \<Rightarrow> session_state \<Rightarrow> component option" where
  "dash_lookup r s =
     (case r of
        Net \<Rightarrow> Some (ss_network s)
      | Db i \<Rightarrow> (if i < length (ss_databases s) then Some (ss_databases s ! i) else None)
      | Srv i \<Rightarrow> (if i < length (ss_servers s) then Some (ss_servers s ! i) else None))"

definition dash_store :: "cref \<Rightarrow> component \<Rightarrow> session_state \<Rightarrow> session_state" where
  "dash_store r c s =
     (case r of
        Net \<Rightarrow> s\<lparr>ss_network := c\<rparr>
      | Db i \<Rightarrow> s\<lparr>ss_databases := (ss_databases s)[i := c]\<rparr>
      | Srv i \<Rightarrow> s\<lparr>ss_servers := (ss_servers s)[i := c]\<rparr>)"

definition dash_inject_failure :: "cref \<Rightarrow> session_state \<Rightarrow> session_state option" where
  "dash_inject_failure r s =
     (case dash_lookup r s of
        None \<Rightarrow> None
      | Some c \<Rightarrow>
          if status c = UP then Some (dash_store r (fail_now (ss_time s) c) s)
          else Some s)"

definition dash_update_component :: "int \<Rightarrow> component list \<Rightarrow> component \<Rightarrow> component" where
  "dash_update_component t deps c =
     (if status c \<noteq> UP then c
      else
        let c1 = c\<lparr>load := foldl (\<lambda>l d. if status d = DOWN then l + 50 else l) (load c) deps\<rparr>
        in if load c1 > max_load c1 then fail_now t c1 else c1)"

definition dash_recover_component :: "int \<Rightarrow> component \<Rightarrow> component" where
  "dash_recover_component t c =
     (case down_since c of
        None \<Rightarrow> c
      | Some d \<Rightarrow>
          if status c = DOWN \<and> t - d \<ge> recovery_time c
          then c\<lparr>status := UP, load := 0,
                    recovery_history := recovery_history c @ [t - d], down_since := None\<rparr>
          else c)"

definition dash_recover_components :: "session_state \<Rightarrow> session_state" where
  "dash_recover_components s =
     s\<lparr>ss_network := dash_recover_component (ss_time s) (ss_network s),
       ss_databases := map (dash_recover_component (ss_time s)) (ss_databases s),
       ss_servers := map (dash_recover_component (ss_time s)) (ss_servers s)\<rparr>"

definition simulate_step :: "session_state \<Rightarrow> session_state" where
  "simulate_step s =
     (let s0 = s\<lparr>ss_time := ss_time s + 1\<rparr>;
          s1 = s0\<lparr>ss_databases :=
                    map (dash_update_component (ss_time s0) [ss_network s0]) (ss_databases s0)\<rparr>;
          s2 = s1\<lparr>ss_servers :=
                    map (dash_update_component (ss_time s1) (ss_databases s1)) (ss_servers s1)\<rparr>;
          s3 = dash_recover_components s2
      in s3\<lparr>ss_cost :=
               foldl (\<lambda>acc comp. if status comp = DOWN then acc + cost_per_step comp else acc)
                 (ss_cost s3) (ss_components s3)\<rparr>)"

definition dash_system_down :: "session_state \<Rightarrow> bool" where
  "dash_system_down s =
     (list_all (\<lambda>db. status db = DOWN) (ss_databases s)
      \<or> list_all (\<lambda>s. status s = DOWN) (ss_servers s))"

text \<open>\<open>round(sum(times) / len(times), 2) if times else 0.0\<close>.\<close>

definition mttr :: "session_state \<Rightarrow> py_error + number" where
  "mttr s =
     (let times = concat (map recovery_history (ss_components s))
      in if times \<noteq> []
         then (case true_div (sum_list times) (int (length times)) of
                 Inl e \<Rightarrow> Inl e
               | Inr x \<Rightarrow> Inr (FloatVal (py_round2 x)))
         else Inr (FloatVal 0))"

definition dash_reset_system :: "session_state \<Rightarrow> session_state" where
  "dash_reset_system s =
     (case init_system of
        (net, dbs, srvs) \<Rightarrow>
          s\<lparr>ss_network := net, ss_databases := dbs, ss_servers := srvs, ss_time := 0,
            ss_cost := 0\<rparr>)"

section \<open>Reachable states and invariants of components\<close>

text \<open>
  The states of \<open>main.py\<close> reachable from the module-level construction by injecting a
  failure, running one iteration of the simulation loop (for any value of the loop
  variable) and resetting. A run of \<open>simulate\<close> is a sequence of such iterations.
\<close>

inductive reachable :: "sys \<Rightarrow> bool" where
  r_init: "reachable init"
| r_inject: "reachable s \<Longrightarrow> inject_failure r s = Some s' \<Longrightarrow> reachable s'"
| r_step: "reachable s \<Longrightarrow> reachable (step t s)"
| r_reset: "reachable s \<Longrightarrow> reachable (reset_system s)"

definition all_ok :: "(component \<Rightarrow> bool) \<Rightarrow> sys \<Rightarrow> bool" where
  "all_ok P s = (P (network s) \<and> list_all P (databases s) \<and> list_all P (servers s))"

definition status_consistent :: "component \<Rightarrow> bool" where
  "status_consistent c \<longleftrightarrow> (down_since c \<noteq> None \<longleftrightarrow> status c = DOWN)"

definition history_ok :: "component \<Rightarrow> bool" where
  "history_ok c \<longleftrightarrow> list_all (\<lambda>d. recovery_time c \<le> d) (recovery_history c)"

text \<open>
  \<open>keeps c c'\<close>: going from \<open>c\<close> to \<open>c'\<close> does not clear the degraded flag and leaves the
  recovery history alone.
\<close>

definition keeps :: "component \<Rightarrow> component \<Rightarrow> bool" where
  "keeps c c' \<longleftrightarrow> (degraded c \<longrightarrow> degraded c') \<and> recovery_history c' = recovery_history c"

section \<open>Invariants carried along every run\<close>

lemma all_ok_iff: "all_ok P s \<longleftrightarrow> (\<forall>c\<in>set (all_components s). P c)"
  by (auto simp: all_ok_def all_components_def list_all_iff)

lemma simulate_foldl_reachable:
  "reachable s \<Longrightarrow> reachable (foldl (\<lambda>s t. step t s) s ts)"
  by (induction ts arbitrary: s) (auto intro: r_step)

lemma reachable_simulate: "reachable s \<Longrightarrow> reachable (simulate n s)"
  unfolding simulate_def by (rule simulate_foldl_reachable)

lemma update_component_keeps:
  assumes fl: "\<And>t c. P c \<Longrightarrow> P (fail_now t c)"
    and ld: "\<And>x c. P c \<Longrightarrow> P (c\<lparr>load := x\<rparr>)"
    and c: "P c"
  shows "P (fst (update_component t deps c))"
  using c by (simp add: update_component_def Let_def fl ld)

lemma balance_keeps:
  assumes fl: "\<And>t c. P c \<Longrightarrow> P (fail_now t c)"
    and ld: "\<And>x c. P c \<Longrightarrow> P (c\<lparr>load := x\<rparr>)"
    and dg: "\<And>c. P c \<Longrightarrow> P (c\<lparr>degraded := True\<rparr>)"
    and c: "P c"
  shows "P (fst (balance t share c))"
  using c by (simp add: balance_def Let_def fl ld dg)

lemma update_databases_keeps:
  assumes s: "all_ok P s"
    and fl: "\<And>t c. P c \<Longrightarrow> P (fail_now t c)"
    and ld: "\<And>x c. P c \<Longrightarrow> P (c\<lparr>load := x\<rparr>)"
  shows "all_ok P (update_databases s)"
proof -
  have "P (fst (update_component t deps c))" if "P c" for t deps c
    using fl ld that by (rule update_component_keeps)
  with s show ?thesis
    by (auto simp: all_ok_def update_databases_def Let_def list_all_iff)
qed

lemma update_servers_keeps:
  assumes s: "all_ok P s"
    and fl: "\<And>t c. P c \<Longrightarrow> P (fail_now t c)"
    and ld: "\<And>x c. P c \<Longrightarrow> P (c\<lparr>load := x\<rparr>)"
  shows "all_ok P (update_servers s)"
proof -
  have "P (fst (update_component t deps c))" if "P c" for t deps c
    using fl ld that by (rule update_component_keeps)
  with s show ?thesis
    by (auto simp: all_ok_def update_servers_def Let_def list_all_iff)
qed

lemma distribute_traffic_keeps:
  assumes s: "all_ok P s"
    and fl: "\<And>t c. P c \<Longrightarrow> P (fail_now t c)"
    and ld: "\<And>x c. P c \<Longrightarrow> P (c\<lparr>load := x\<rparr>)"
    and dg: "\<And>c. P c \<Longrightarrow> P (c\<lparr>degraded := True\<rparr>)"
  shows "all_ok P (distribute_traffic tt s)"
proof -
  have "P (fst (balance t share c))" if "P c" for t share c
    using fl ld dg that by (rule balance_keeps)
  with s show ?thesis
    by (auto simp: all_ok_def distribute_traffic_def Let_def list_all_iff)
qed

lemma accrue_cost_keeps: "all_ok P (accrue_cost s) = all_ok P s"
  by (simp add: all_ok_def accrue_cost_def)

lemma record_system_down_keeps: "all_ok P (record_system_down s) = all_ok P s"
  by (simp add: all_ok_def record_system_down_def)

lemma recover_components_keeps:
  assumes s: "all_ok P s"
    and rc: "\<And>t c. P c \<Longrightarrow> P (recover_component t c)"
  shows "all_ok P (recover_components s)"
  using s by (auto simp: all_ok_def recover_components_def list_all_iff rc)

lemma set_time_keeps: "all_ok P (s\<lparr>current_time := t\<rparr>) = all_ok P s"
  by (simp add: all_ok_def)

lemma step_keeps:
  assumes s: "all_ok P s"
    and fl: "\<And>t c. P c \<Longrightarrow> P (fail_now t c)"
    and ld: "\<And>x c. P c \<Longrightarrow> P (c\<lparr>load := x\<rparr>)"
    and dg: "\<And>c. P c \<Longrightarrow> P (c\<lparr>degraded := True\<rparr>)"
    and rc: "\<And>t c. P c \<Longrightarrow> P (recover_component t c)"
  shows "all_ok P (step t s)"
proof -
  define s0 where "s0 = s\<lparr>current_time := t\<rparr>"
  define s1 where "s1 = update_databases s0"
  define s2 where "s2 = update_servers s1"
  define s3 where "s3 = distribute_traffic 120 s2"
  define s5 where "s5 = record_system_down (accrue_cost s3)"
  have "all_ok P s0"
    using s by (simp add: s0_def set_time_keeps)
  then have "all_ok P s1"
    unfolding s1_def using fl ld by (rule update_databases_keeps)
  then have "all_ok P s2"
    unfolding s2_def using fl ld by (rule update_servers_keeps)
  then have "all_ok P s3"
    unfolding s3_def using fl ld dg by (rule distribute_traffic_keeps)
  then have "all_ok P s5"
    by (simp add: s5_def accrue_cost_keeps record_system_down_keeps)
  then have "all_ok P (recover_components s5)"
    using rc by (rule recover_components_keeps)
  then show ?thesis
    by (simp add: step_def Let_def s0_def s1_def s2_def s3_def s5_def)
qed

lemma inject_failure_keeps:
  assumes s: "all_ok P s"
    and i: "inject_failure r s = Some s'"
    and fl: "\<And>t c. P c \<Longrightarrow> P (fail_now t c)"
  shows "all_ok P s'"
proof (cases r)
  case Net
  with s i show ?thesis
    by (auto simp: inject_failure_def lookup_def store_def all_ok_def fl)
next
  case (Db k)
  with s i show ?thesis
    by (auto simp: inject_failure_def lookup_def store_def all_ok_def fl list_all_length
        nth_list_update split: if_splits)
next
  case (Srv k)
  with s i show ?thesis
    by (auto simp: inject_failure_def lookup_def store_def all_ok_def fl list_all_length
        nth_list_update split: if_splits)
qed

lemma reset_system_keeps:
  assumes s: "all_ok P s"
    and rs: "\<And>c. P c \<Longrightarrow> P (reset_component c)"
  shows "all_ok P (reset_system s)"
  using s by (auto simp: all_ok_def reset_system_def list_all_iff rs)

lemma reachable_all_ok:
  assumes r: "reachable s"
    and base: "all_ok P init"
    and fl: "\<And>t c. P c \<Longrightarrow> P (fail_now t c)"
    and ld: "\<And>x c. P c \<Longrightarrow> P (c\<lparr>load := x\<rparr>)"
    and dg: "\<And>c. P c \<Longrightarrow> P (c\<lparr>degraded := True\<rparr>)"
    and rc: "\<And>t c. P c \<Longrightarrow> P (recover_component t c)"
    and rs: "\<And>c. P c \<Longrightarrow> P (reset_component c)"
  shows "all_ok P s"
  using r
proof (induction rule: reachable.induct)
  case r_init
  show ?case by (rule base)
next
  case (r_inject s r s')
  from r_inject.IH r_inject.hyps(2) fl show ?case by (rule inject_failure_keeps)
next
  case (r_step s t)
  from r_step.IH fl ld dg rc show ?case by (rule step_keeps)
next
  case (r_reset s)
  from r_reset.IH rs show ?case by (rule reset_system_keeps)
qed

section \<open>Runs of \<open>simulate\<close>, unrolled\<close>

lemma simulate_nonpos: "n \<le> 0 \<Longrightarrow> simulate n s = s"
  by (simp add: simulate_def)

lemma simulate_Suc: "0 \<le> n \<Longrightarrow> simulate (n + 1) s = step (n + 1) (simulate n s)"
proof -
  assume "0 \<le> n"
  then have "[1..n + 1] = [1..n] @ [n + 1]"
    by (simp add: upto_rec2)
  then show ?thesis
    by (simp add: simulate_def)
qed

lemma simulate_1: "simulate 1 s = step 1 s"
  using simulate_Suc [of 0 s] by (simp add: simulate_nonpos)

lemma simulate_2: "simulate 2 s = step 2 (step 1 s)"
  using simulate_Suc [of 1 s] by (simp add: simulate_1)

lemma simulate_3: "simulate 3 s = step 3 (step 2 (step 1 s))"
  using simulate_Suc [of 2 s] by (simp add: simulate_2)

lemma simulate_4: "simulate 4 s = step 4 (step 3 (step 2 (step 1 s)))"
  using simulate_Suc [of 3 s] by (simp add: simulate_3)

section \<open>Reset and the baseline (C1)\<close>

text \<open>
  What \<open>reset_system\<close> of \<open>main.py\<close> does restore: every component is up with load 0, no
  failure time and no degraded flag, and the four tracking variables are back at their
  initial values. The dashboard's \<open>reset_system\<close> builds the components anew, so there the
  whole baseline comes back.
\<close>

lemma reset_system_clears:
  "current_time (reset_system s) = 0 \<and> total_failure_cost (reset_system s) = 0
   \<and> failure_timeline (reset_system s) = [] \<and> system_down_time (reset_system s) = None
   \<and> all_ok (\<lambda>c. status c = UP \<and> load c = 0 \<and> down_since c = None \<and> \<not> degraded c)
        (reset_system s)"
  by (simp add: reset_system_def reset_component_def all_ok_def list_all_iff)

lemma dash_reset_system_baseline: "dash_reset_system s = dash_init"
  by (simp add: dash_reset_system_def dash_init_def init_system_def)

text \<open>
  C1. A reset followed by zero steps should reproduce the baseline of the initial
  construction, recovery histories empty included. \<open>reset_system\<close> of \<open>main.py\<close> never
  touches \<open>recovery_history\<close>: after a failure of the network is injected and three steps
  are run, the reset leaves the network's history \<open>[3]\<close> where the baseline has \<open>[]\<close>, and
  the mean time to recovery of the reset system is 3.0 where the baseline's is 0.
\<close>

theorem reset_keeps_recovery_history:
  "(case inject_failure Net init of
      None \<Rightarrow> False
    | Some s0 \<Rightarrow>
        recovery_history (network (reset_system (simulate 3 s0))) = [3]
        \<and> recovery_history (network init) = []
        \<and> calculate_mttr (reset_system (simulate 3 s0)) = Inr (FloatVal 3)
        \<and> calculate_mttr init = Inr (IntVal 0))"
  unfolding simulate_3 by code_simp

section \<open>Injecting a failure twice (C2)\<close>

text \<open>
  The dashboard's \<open>inject_failure\<close> is guarded by \<open>comp.status == "UP"\<close>: on a failed
  component it changes nothing.
\<close>

lemma dash_inject_failure_failed:
  "dash_lookup r s = Some c \<Longrightarrow> status c = DOWN \<Longrightarrow> dash_inject_failure r s = Some s"
  by (simp add: dash_inject_failure_def)

text \<open>
  C2. Injecting a failure into a component that is already failed should change none of
  its status, its failure time and its load. \<open>inject_failure\<close> of \<open>main.py\<close> has no guard:
  with the network failed at time 0 and one step run, a second injection keeps status and
  load but moves \<open>down_since\<close> from 0 to 1.
\<close>

theorem reinjection_restarts_clock:
  "(case inject_failure Net init of
      None \<Rightarrow> False
    | Some s0 \<Rightarrow>
        (case inject_failure Net (simulate 1 s0) of
           None \<Rightarrow> False
         | Some s2 \<Rightarrow>
             status (network (simulate 1 s0)) = DOWN
             \<and> down_since (network (simulate 1 s0)) = Some 0
             \<and> load (network (simulate 1 s0)) = load (network s2)
             \<and> status (network s2) = DOWN
             \<and> down_since (network s2) = Some 1))"
  unfolding simulate_1 by code_simp

section \<open>The network failure scenario (C7)\<close>

text \<open>
  C7. With the default parameters, a failure of the network injected at time 0 leaves both
  databases up with load exactly 50 after step 1; the network is still down after steps 1
  and 2 and is up again after step 3, with the recovery duration 3 recorded.
\<close>

theorem network_failure_scenario:
  "(case inject_failure Net init of
      None \<Rightarrow> False
    | Some s0 \<Rightarrow>
        map (\<lambda>db. (status db, load db)) (databases (simulate 1 s0)) = [(UP, 50), (UP, 50)]
        \<and> status (network (simulate 1 s0)) = DOWN
        \<and> status (network (simulate 2 s0)) = DOWN
        \<and> status (network (simulate 3 s0)) = UP
        \<and> recovery_history (network (simulate 3 s0)) = [3])"
  unfolding simulate_1 simulate_2 simulate_3 by code_simp

section \<open>The outage predicate (C4)\<close>

text \<open>
  C4. \<open>system_down\<close> holds exactly when every database is down or every server is down;
  with all databases down it holds whatever the network and the servers are. The
  dashboard's \<open>system_down\<close> is the same test on the session state.
\<close>

theorem system_down_iff:
  "(system_down s \<longleftrightarrow>
      (\<forall>db\<in>set (databases s). status db = DOWN) \<or> (\<forall>srv\<in>set (servers s). status srv = DOWN))
   \<and> ((\<forall>db\<in>set (databases s). status db = DOWN) \<longrightarrow>
        system_down (s\<lparr>network := n, servers := srvs\<rparr>))
   \<and> (dash_system_down d \<longleftrightarrow>
        (\<forall>db\<in>set (ss_databases d). status db = DOWN)
        \<or> (\<forall>srv\<in>set (ss_servers d). status srv = DOWN))"
  by (simp add: system_down_def dash_system_down_def list_all_iff)

theorem system_down_iff_witness:
  "map status (databases (init\<lparr>databases := map (fail_now 0) (databases init)\<rparr>)) = [DOWN, DOWN]
   \<and> map status (servers (init\<lparr>databases := map (fail_now 0) (databases init)\<rparr>)) = [UP, UP]
   \<and> status (network (init\<lparr>databases := map (fail_now 0) (databases init)\<rparr>)) = UP
   \<and> system_down (init\<lparr>databases := map (fail_now 0) (databases init)\<rparr>)"
proof -
  let ?s = "init\<lparr>databases := map (fail_now 0) (databases init)\<rparr>"
  have dbs: "\<forall>db\<in>set (databases ?s). status db = DOWN"
    by (simp add: fail_now_def)
  have "system_down ?s"
    using system_down_iff [of ?s] dbs by blast
  then show ?thesis
    by (simp add: init_def Component_def fail_now_def)
qed

section \<open>Rounding errors of Python's floats\<close>

text \<open>
  The double nearest to a rational \<open>q\<close> is within half a unit in the last place of \<open>q\<close>: within
  \<open>|q| / 2 ^ 53\<close> for a \<open>q\<close> in the normal range, within \<open>2 ^ -1075\<close> below it. Rounding to two
  decimals adds at most half a hundredth.
\<close>

lemma pow2_powi: "pow2 e = 2 powi e"
  by (simp add: pow2_def power_int_def inverse_eq_divide power_one_over)

lemma pow2_pos: "0 < pow2 e"
  by (simp add: pow2_powi)

lemma pow2_add: "pow2 (a + b) = pow2 a * pow2 b"
  by (simp add: pow2_powi power_int_add)

lemma round_half_even_error: "\<bar>of_int (round_half_even q) - q\<bar> \<le> 1 / 2"
proof -
  have "of_int \<lfloor>q\<rfloor> \<le> q" and "q < of_int \<lfloor>q\<rfloor> + 1"
    by linarith+
  then show ?thesis
    by (auto simp: round_half_even_def Let_def)
qed

lemma ilog2_lower:
  assumes q: "0 < q"
  shows "pow2 (ilog2 q) \<le> q"
proof -
  obtain n d where nd: "quotient_of q = (n, d)"
    by (cases "quotient_of q")
  then have d: "0 < d" and qe: "q = of_int n / of_int d"
    using quotient_of_denom_pos [of q n d] quotient_of_div [of q n d] by simp_all
  from q qe d have n: "0 < n"
    by (simp add: zero_less_divide_iff)
  let ?k = "bitlen n - bitlen d"
  show ?thesis
  proof (cases "pow2 ?k \<le> q")
    case True
    with nd show ?thesis
      by (simp add: ilog2_def Let_def)
  next
    case False
    from bitlen_bounds [OF n] have ln: "(2::int) ^ nat (bitlen n - 1) \<le> n"
      by simp
    from bitlen_bounds [OF d] have ud: "d < (2::int) ^ nat (bitlen d)"
      by simp
    have bn: "1 \<le> bitlen n"
      using n by (simp add: bitlen_alt_def)
    have bd: "0 \<le> bitlen d"
      by (rule bitlen_nonneg)
    have "(of_int d :: rat) < of_int (2 ^ nat (bitlen d))"
      using ud by (simp only: of_int_less_iff)
    then have "(of_int d :: rat) \<le> 2 ^ nat (bitlen d)"
      by simp
    then have "pow2 (?k - 1) * of_int d \<le> pow2 (?k - 1) * 2 ^ nat (bitlen d)"
      using pow2_pos [of "?k - 1"] by (simp add: mult_left_mono)
    also have "\<dots> = pow2 (?k - 1) * pow2 (bitlen d)"
      using bd by (simp add: pow2_def)
    also have "\<dots> = pow2 (bitlen n - 1)"
      using pow2_add [of "?k - 1" "bitlen d"] by simp
    also have "\<dots> = 2 ^ nat (bitlen n - 1)"
      using bn by (simp add: pow2_def)
    also have "\<dots> \<le> of_int n"
    proof -
      have "(of_int (2 ^ nat (bitlen n - 1)) :: rat) \<le> of_int n"
        using ln by (simp only: of_int_le_iff)
      then show ?thesis by simp
    qed
    finally have "pow2 (?k - 1) * of_int d \<le> of_int n" .
    then have "pow2 (?k - 1) \<le> q"
      using d by (simp add: qe pos_le_divide_eq)
    with False nd show ?thesis
      by (simp add: ilog2_def Let_def)
  qed
qed

lemma to_double_error:
  assumes big: "pow2 (- 1022) \<le> \<bar>q\<bar>"
  shows "\<bar>to_double q - q\<bar> \<le> \<bar>q\<bar> / 2 ^ 53"
proof -
  define a where "a = \<bar>q\<bar>"
  define e where "e = max (ilog2 a - 52) (- 1074)"
  define m where "m = round_half_even (a / pow2 e)"
  have a: "0 < a"
    using big pow2_pos [of "- 1022"] by (simp add: a_def)
  then have q0: "q \<noteq> 0"
    by (auto simp: a_def)
  have pe: "0 < pow2 e"
    by (rule pow2_pos)
  have td: "to_double q = sgn q * of_int m * pow2 e"
    using q0 by (simp add: to_double_def Let_def a_def e_def m_def)
  have qs: "q = sgn q * a"
    by (simp add: a_def sgn_mult_abs)
  have "to_double q - q = sgn q * (of_int m * pow2 e - a)"
    using td qs by (simp add: algebra_simps)
  then have "\<bar>to_double q - q\<bar> = \<bar>of_int m * pow2 e - a\<bar>"
    using q0 by (simp add: abs_mult abs_sgn_eq)
  also have "of_int m * pow2 e - a = (of_int m - a / pow2 e) * pow2 e"
    using pe by (simp add: field_simps)
  also have "\<bar>(of_int m - a / pow2 e) * pow2 e\<bar> = \<bar>of_int m - a / pow2 e\<bar> * pow2 e"
    using pe by (simp add: abs_mult)
  also have "\<dots> \<le> 1 / 2 * pow2 e"
    using round_half_even_error [of "a / pow2 e"] pe
    by (intro mult_right_mono) (simp_all add: m_def)
  finally have err: "\<bar>to_double q - q\<bar> \<le> pow2 e / 2"
    by simp
  have "pow2 e \<le> a * pow2 (- 52)"
  proof (cases "- 1074 \<le> ilog2 a - 52")
    case True
    then have "e = ilog2 a + (- 52)"
      by (simp add: e_def)
    then have "pow2 e = pow2 (ilog2 a) * pow2 (- 52)"
      by (simp only: pow2_add)
    also have "\<dots> \<le> a * pow2 (- 52)"
      using ilog2_lower [OF a] pow2_pos [of "- 52"] by (intro mult_right_mono) simp_all
    finally show ?thesis .
  next
    case False
    then have "e = - 1022 + (- 52)"
      by (simp add: e_def)
    then have "pow2 e = pow2 (- 1022) * pow2 (- 52)"
      by (simp only: pow2_add)
    also have "\<dots> \<le> a * pow2 (- 52)"
      using big pow2_pos [of "- 52"] by (intro mult_right_mono) (simp_all add: a_def)
    finally show ?thesis .
  qed
  then have "pow2 e / 2 \<le> a / 2 ^ 53"
    by (simp add: pow2_def)
  with err show ?thesis
    by (simp add: a_def)
qed

lemma to_double_ulp:
  assumes q0: "q \<noteq> 0"
  shows "\<bar>to_double q - q\<bar> \<le> pow2 (max (ilog2 \<bar>q\<bar> - 52) (- 1074)) / 2"
proof -
  define a where "a = \<bar>q\<bar>"
  define e where "e = max (ilog2 a - 52) (- 1074)"
  define m where "m = round_half_even (a / pow2 e)"
  have pe: "0 < pow2 e"
    by (rule pow2_pos)
  have td: "to_double q = sgn q * of_int m * pow2 e"
    using q0 by (simp add: to_double_def Let_def a_def e_def m_def)
  have qs: "q = sgn q * a"
    by (simp add: a_def sgn_mult_abs)
  have "to_double q - q = sgn q * (of_int m * pow2 e - a)"
    using td qs by (simp add: algebra_simps)
  then have "\<bar>to_double q - q\<bar> = \<bar>of_int m * pow2 e - a\<bar>"
    using q0 by (simp add: abs_mult abs_sgn_eq)
  also have "of_int m * pow2 e - a = (of_int m - a / pow2 e) * pow2 e"
    using pe by (simp add: field_simps)
  also have "\<bar>(of_int m - a / pow2 e) * pow2 e\<bar> = \<bar>of_int m - a / pow2 e\<bar> * pow2 e"
    using pe by (simp add: abs_mult)
  also have "\<dots> \<le> 1 / 2 * pow2 e"
    using round_half_even_error [of "a / pow2 e"] pe
    by (intro mult_right_mono) (simp_all add: m_def)
  finally show ?thesis
    by (simp add: e_def a_def)
qed

lemma to_double_error_any:
  "\<bar>to_double q - q\<bar> \<le> max (\<bar>q\<bar> / 2 ^ 53) (pow2 (- 1075))"
proof (cases "q = 0")
  case True
  then show ?thesis
    using pow2_pos [of "- 1075"] by (simp add: to_double_def)
next
  case False
  define a where "a = \<bar>q\<bar>"
  define e where "e = max (ilog2 a - 52) (- 1074)"
  have a: "0 < a"
    using False by (simp add: a_def)
  have err: "\<bar>to_double q - q\<bar> \<le> pow2 e / 2"
    using to_double_ulp [OF False] by (simp add: e_def a_def)
  show ?thesis
  proof (cases "- 1074 \<le> ilog2 a - 52")
    case True
    then have "e = ilog2 a + (- 52)"
      by (simp add: e_def)
    then have "pow2 e = pow2 (ilog2 a) * pow2 (- 52)"
      by (simp only: pow2_add)
    also have "\<dots> \<le> a * pow2 (- 52)"
      using ilog2_lower [OF a] pow2_pos [of "- 52"] by (intro mult_right_mono) simp_all
    finally have "pow2 e / 2 \<le> a / 2 ^ 53"
      by (simp add: pow2_def)
    with err show ?thesis
      by (simp add: a_def max_def)
  next
    case False
    then have "e = - 1075 + 1"
      by (simp add: e_def)
    then have "pow2 e = pow2 (- 1075) * pow2 1"
      by (simp only: pow2_add)
    then have "pow2 e / 2 = pow2 (- 1075)"
      by (simp add: pow2_def [of 1])
    with err show ?thesis
      by (simp add: max_def)
  qed
qed

lemma pow2_small: "pow2 (- 1075) \<le> 1 / 2 ^ 53"
proof -
  have "pow2 (- 1075) = pow2 (- 1022) * pow2 (- 53)"
    using pow2_add [of "- 1022" "- 53"] by simp
  moreover have "pow2 (- 1022) \<le> 1"
    by (simp add: pow2_def)
  moreover have "pow2 (- 53) = 1 / 2 ^ 53"
    by (simp add: pow2_def)
  ultimately show ?thesis
    by simp
qed

lemma to_double_error_abs: "\<bar>to_double q - q\<bar> \<le> (\<bar>q\<bar> + 1) / 2 ^ 53"
proof -
  have "\<bar>q\<bar> / 2 ^ 53 \<le> \<bar>q\<bar> / 2 ^ 53 + 1 / 2 ^ 53"
    by simp
  moreover have "pow2 (- 1075) \<le> \<bar>q\<bar> / 2 ^ 53 + 1 / 2 ^ 53"
    by (rule add_increasing) (simp, rule pow2_small)
  ultimately have "max (\<bar>q\<bar> / 2 ^ 53) (pow2 (- 1075)) \<le> \<bar>q\<bar> / 2 ^ 53 + 1 / 2 ^ 53"
    by (rule max.boundedI)
  with to_double_error_any [of q] show ?thesis
    by (simp add: add_divide_distrib)
qed

lemma py_round2_error: "\<bar>py_round2 x - x\<bar> \<le> 1 / 200 + (\<bar>x\<bar> + 1) / 2 ^ 53"
proof -
  define r :: rat where "r = of_int (round_half_even (100 * x)) / 100"
  have k: "\<bar>of_int (round_half_even (100 * x)) - 100 * x\<bar> \<le> 1 / 2"
    by (rule round_half_even_error)
  have eq: "r - x = (of_int (round_half_even (100 * x)) - 100 * x) / 100"
    by (simp add: r_def field_simps)
  have "\<bar>r - x\<bar> = \<bar>of_int (round_half_even (100 * x)) - 100 * x\<bar> / \<bar>100\<bar>"
    unfolding eq by (rule abs_divide)
  also have "\<dots> \<le> (1 / 2) / \<bar>100\<bar>"
    using k by (intro divide_right_mono) simp_all
  finally have rx: "\<bar>r - x\<bar> \<le> 1 / 200"
    by simp
  have tr: "\<bar>to_double r - r\<bar> \<le> (\<bar>r\<bar> + 1) / 2 ^ 53"
    by (rule to_double_error_abs)
  show ?thesis
  proof (cases "round_half_even (100 * x) = 0")
    case True
    then have "py_round2 x = 0" and "r = 0"
      by (simp_all add: py_round2_def r_def to_double_def)
    with rx have "\<bar>py_round2 x - x\<bar> \<le> 1 / 200"
      by simp
    moreover have "0 \<le> (\<bar>x\<bar> + 1) / 2 ^ 53"
      by simp
    ultimately show ?thesis
      by linarith
  next
    case False
    then have "1 \<le> \<bar>round_half_even (100 * x)\<bar>"
      by simp
    then have "(of_int 1 :: rat) \<le> of_int \<bar>round_half_even (100 * x)\<bar>"
      by (simp only: of_int_le_iff)
    then have "(1::rat) \<le> \<bar>of_int (round_half_even (100 * x))\<bar>"
      by simp
    then have r1: "1 / 100 \<le> \<bar>r\<bar>"
      by (simp add: r_def)
    have "pow2 (- 1022) \<le> 1 / 100"
      by (simp add: pow2_def)
    with r1 have "pow2 (- 1022) \<le> \<bar>r\<bar>"
      by linarith
    then have e: "\<bar>to_double r - r\<bar> \<le> \<bar>r\<bar> / 2 ^ 53"
      by (rule to_double_error)
    from rx have "\<bar>r\<bar> \<le> \<bar>x\<bar> + 1"
      by linarith
    then have "\<bar>r\<bar> / 2 ^ 53 \<le> (\<bar>x\<bar> + 1) / 2 ^ 53"
      by (intro divide_right_mono) simp_all
    with e have "\<bar>to_double r - r\<bar> \<le> (\<bar>x\<bar> + 1) / 2 ^ 53"
      by linarith
    moreover have "py_round2 x = to_double r"
      by (simp add: py_round2_def r_def)
    ultimately show ?thesis
      using rx by linarith
  qed
qed

lemma py_round2_to_double_error:
  "\<bar>py_round2 (to_double q) - q\<bar> \<le> 1 / 200 + (\<bar>q\<bar> + 1) / 2 ^ 51"
proof -
  define u where "u = (\<bar>q\<bar> + 1) / 2 ^ 53"
  define x where "x = to_double q"
  have u0: "0 \<le> u"
    by (simp add: u_def)
  have u4: "(\<bar>q\<bar> + 1) / 2 ^ 51 = 4 * u"
    by (simp add: u_def)
  have u1: "u \<le> \<bar>q\<bar> + 1"
    by (simp add: u_def field_simps)
  have xq: "\<bar>x - q\<bar> \<le> u"
    unfolding x_def u_def by (rule to_double_error_abs)
  have "\<bar>x\<bar> = \<bar>q + (x - q)\<bar>"
    by simp
  also have "\<dots> \<le> \<bar>q\<bar> + \<bar>x - q\<bar>"
    by (rule abs_triangle_ineq)
  finally have "\<bar>x\<bar> + 1 \<le> (\<bar>q\<bar> + 1) + (\<bar>q\<bar> + 1)"
    using xq u1 by linarith
  then have "(\<bar>x\<bar> + 1) / 2 ^ 53 \<le> ((\<bar>q\<bar> + 1) + (\<bar>q\<bar> + 1)) / 2 ^ 53"
    by (intro divide_right_mono) simp_all
  then have "(\<bar>x\<bar> + 1) / 2 ^ 53 \<le> u + u"
    by (simp only: u_def add_divide_distrib)
  with py_round2_error [of x] have "\<bar>py_round2 x - x\<bar> \<le> 1 / 200 + (u + u)"
    by linarith
  moreover have "\<bar>py_round2 x - q\<bar> \<le> \<bar>py_round2 x - x\<bar> + \<bar>x - q\<bar>"
    by (rule abs_triangle_ineq4 [of "py_round2 x - x" "q - x", simplified abs_minus_commute [of q x], simplified])
  ultimately have "\<bar>py_round2 x - q\<bar> \<le> 1 / 200 + 4 * u"
    using xq u0 by linarith
  then show ?thesis
    by (simp only: u4 x_def)
qed

section \<open>Mean time to recovery (C8)\<close>

lemma sum_list_concat_map:
  "sum_list (concat (map f xs)) = (\<Sum>x\<leftarrow>xs. sum_list (f x :: int list))"
  by (induction xs) simp_all

lemma length_concat_map:
  "int (length (concat (map f xs))) = (\<Sum>x\<leftarrow>xs. int (length (f x)))"
  by (induction xs) simp_all

lemma no_recovery_iff:
  "concat (map recovery_history cs) = [] \<longleftrightarrow> (\<forall>c\<in>set cs. recovery_history c = [])"
  by simp

lemma mean_of_times:
  "of_int (sum_list (concat (map recovery_history cs)))
     / of_int (int (length (concat (map recovery_history cs)))) = recovery_mean cs"
  unfolding recovery_mean_def sum_list_concat_map length_concat_map ..

lemma true_div_times:
  assumes "concat (map recovery_history cs) \<noteq> []"
  shows "true_div (sum_list (concat (map recovery_history cs)))
           (int (length (concat (map recovery_history cs)))) =
         (if pow2 1024 \<le> \<bar>to_double (recovery_mean cs)\<bar> then Inl OverflowError
          else Inr (to_double (recovery_mean cs)))"
proof -
  from assms have "int (length (concat (map recovery_history cs))) \<noteq> 0"
    by simp
  then show ?thesis
    unfolding true_div_def Let_def mean_of_times by (simp only: if_False)
qed

lemma calculate_mttr_eq:
  "calculate_mttr s =
     (if \<forall>c\<in>set (all_components s). recovery_history c = [] then Inr (IntVal 0)
      else if pow2 1024 \<le> \<bar>to_double (recovery_mean (all_components s))\<bar>
        then Inl OverflowError
      else Inr (FloatVal (to_double (recovery_mean (all_components s)))))"
proof (cases "concat (map recovery_history (all_components s)) = []")
  case True
  then show ?thesis
    unfolding calculate_mttr_def Let_def no_recovery_iff [symmetric] by simp
next
  case False
  then have "true_div (sum_list (concat (map recovery_history (all_components s))))
               (int (length (concat (map recovery_history (all_components s))))) =
             (if pow2 1024 \<le> \<bar>to_double (recovery_mean (all_components s))\<bar> then Inl OverflowError
              else Inr (to_double (recovery_mean (all_components s))))"
    by (rule true_div_times)
  with False show ?thesis
    unfolding calculate_mttr_def Let_def no_recovery_iff [symmetric]
    by (simp only: if_True if_False not_False_eq_True sum.case split: if_split) blast
qed

lemma mttr_eq:
  "mttr d =
     (if \<forall>c\<in>set (ss_components d). recovery_history c = [] then Inr (FloatVal 0)
      else if pow2 1024 \<le> \<bar>to_double (recovery_mean (ss_components d))\<bar>
        then Inl OverflowError
      else Inr (FloatVal (py_round2 (to_double (recovery_mean (ss_components d))))))"
proof (cases "concat (map recovery_history (ss_components d)) = []")
  case True
  then show ?thesis
    unfolding mttr_def Let_def no_recovery_iff [symmetric] by simp
next
  case False
  then have "true_div (sum_list (concat (map recovery_history (ss_components d))))
               (int (length (concat (map recovery_history (ss_components d))))) =
             (if pow2 1024 \<le> \<bar>to_double (recovery_mean (ss_components d))\<bar> then Inl OverflowError
              else Inr (to_double (recovery_mean (ss_components d))))"
    by (rule true_div_times)
  with False show ?thesis
    unfolding mttr_def Let_def no_recovery_iff [symmetric]
    by (simp only: if_True if_False not_False_eq_True sum.case split: if_split) blast
qed

lemma recovery_mean_none:
  "\<forall>c\<in>set cs. recovery_history c = [] \<Longrightarrow> recovery_mean cs = 0"
  by (induction cs) (simp_all add: recovery_mean_def)

lemma calculate_mttr_near:
  assumes "calculate_mttr s = Inr (FloatVal x)"
  shows "\<bar>x - recovery_mean (all_components s)\<bar>
           \<le> max (\<bar>recovery_mean (all_components s)\<bar> / 2 ^ 53) (pow2 (- 1075))"
proof -
  from assms have "x = to_double (recovery_mean (all_components s))"
    unfolding calculate_mttr_eq by (simp split: if_splits)
  then show ?thesis
    using to_double_error_any [of "recovery_mean (all_components s)"] by (simp only:)
qed

lemma mttr_near:
  assumes "mttr d = Inr (FloatVal y)"
  shows "\<bar>y - recovery_mean (ss_components d)\<bar>
           \<le> 1 / 200 + (\<bar>recovery_mean (ss_components d)\<bar> + 1) / 2 ^ 51"
proof (cases "\<forall>c\<in>set (ss_components d). recovery_history c = []")
  case True
  then have "recovery_mean (ss_components d) = 0"
    by (rule recovery_mean_none)
  moreover from True assms have "y = 0"
    unfolding mttr_eq by simp
  ultimately show ?thesis
    by simp
next
  case False
  with assms have "y = py_round2 (to_double (recovery_mean (ss_components d)))"
    unfolding mttr_eq by (simp split: if_splits)
  then show ?thesis
    using py_round2_to_double_error [of "recovery_mean (ss_components d)"] by (simp only:)
qed

text \<open>
  C8, as amended. \<open>calculate_mttr\<close> of \<open>main.py\<close> returns the integer 0 when no component has
  recorded a recovery. Otherwise it returns the float of the true division of the sum of
  all recorded durations by their number: the double nearest to their arithmetic mean,
  within \<open>max (|mean| / 2 ^ 53) (2 ^ -1075)\<close> of it, or \<open>OverflowError\<close> where that double would
  be beyond the largest one. \<open>mttr\<close> of \<open>dashboard.py\<close> returns the float 0.0 when no
  recovery is recorded and otherwise that double rounded to two decimals, which is within
  \<open>1 / 200 + (|mean| + 1) / 2 ^ 51\<close> of the mean. Neither fails by a division by zero.
\<close>

theorem calculate_mttr_float_mean:
  "calculate_mttr s =
     (if \<forall>c\<in>set (all_components s). recovery_history c = [] then Inr (IntVal 0)
      else if pow2 1024 \<le> \<bar>to_double (recovery_mean (all_components s))\<bar>
        then Inl OverflowError
      else Inr (FloatVal (to_double (recovery_mean (all_components s)))))
   \<and> (calculate_mttr s = Inr (FloatVal x) \<longrightarrow>
        \<bar>x - recovery_mean (all_components s)\<bar>
          \<le> max (\<bar>recovery_mean (all_components s)\<bar> / 2 ^ 53) (pow2 (- 1075)))
   \<and> mttr d =
     (if \<forall>c\<in>set (ss_components d). recovery_history c = [] then Inr (FloatVal 0)
      else if pow2 1024 \<le> \<bar>to_double (recovery_mean (ss_components d))\<bar>
        then Inl OverflowError
      else Inr (FloatVal (py_round2 (to_double (recovery_mean (ss_components d))))))
   \<and> (mttr d = Inr (FloatVal y) \<longrightarrow>
        \<bar>y - recovery_mean (ss_components d)\<bar>
          \<le> 1 / 200 + (\<bar>recovery_mean (ss_components d)\<bar> + 1) / 2 ^ 51)
   \<and> calculate_mttr s \<noteq> Inl ZeroDivisionError
   \<and> mttr d \<noteq> Inl ZeroDivisionError"
proof (intro conjI)
  show "calculate_mttr s \<noteq> Inl ZeroDivisionError"
    unfolding calculate_mttr_eq by simp
  show "mttr d \<noteq> Inl ZeroDivisionError"
    unfolding mttr_eq by simp
qed (use calculate_mttr_near mttr_near in \<open>blast+\<close> | rule calculate_mttr_eq mttr_eq)+

theorem calculate_mttr_float_mean_witness:
  "map recovery_history (all_components (simulate 4 init)) = [[], [], [], [1], [1]]
   \<and> calculate_mttr (simulate 4 init) = Inr (FloatVal 1)
   \<and> map recovery_history (all_components init) = [[], [], [], [], []]
   \<and> calculate_mttr init = Inr (IntVal 0)
   \<and> mttr dash_init = Inr (FloatVal 0)"
proof -
  have h4: "map recovery_history (all_components (simulate 4 init)) = [[], [], [], [1], [1]]"
    unfolding simulate_4 by code_simp
  have h0: "map recovery_history (all_components init) = [[], [], [], [], []]"
    by code_simp
  have n4: "(\<forall>c\<in>set (all_components (simulate 4 init)). recovery_history c = []) = False"
    unfolding simulate_4 by code_simp
  have m4: "recovery_mean (all_components (simulate 4 init)) = 1"
    unfolding simulate_4 by code_simp
  have t1: "to_double 1 = 1"
    by code_simp
  have p: "(pow2 1024 \<le> \<bar>1\<bar>) = False"
    by code_simp
  have n0: "(\<forall>c\<in>set (all_components init). recovery_history c = []) = True"
    by code_simp
  have d0: "(\<forall>c\<in>set (ss_components dash_init). recovery_history c = []) = True"
    by code_simp
  have a: "calculate_mttr (simulate 4 init) = Inr (FloatVal 1)"
    using calculate_mttr_float_mean [of "simulate 4 init" 1 dash_init 0]
    unfolding n4 m4 t1 p by simp
  have b: "calculate_mttr init = Inr (IntVal 0) \<and> mttr dash_init = Inr (FloatVal 0)"
    using calculate_mttr_float_mean [of init 0 dash_init 0]
    unfolding n0 d0 by simp
  from h4 a h0 b show ?thesis
    by simp
qed

text \<open>
  Where the claim fails as stated. In the dashboard, with Database-1 and both web servers
  failed at time 0, two steps record the durations 2, 1 and 1: their mean is \<open>4 / 3\<close>, and
  \<open>mttr\<close> returns the float 1.33. In \<open>main.py\<close>, with the network failed at time 0, four
  steps record 3, 1 and 1: their mean is \<open>5 / 3\<close>, and \<open>calculate_mttr\<close> returns the double
  next to it, 1.6666666666666667.
\<close>

theorem mttr_not_arithmetic_mean:
  "(case dash_inject_failure (Db 0) dash_init of
      None \<Rightarrow> False
    | Some d1 \<Rightarrow>
        (case dash_inject_failure (Srv 0) d1 of
           None \<Rightarrow> False
         | Some d2 \<Rightarrow>
             (case dash_inject_failure (Srv 1) d2 of
                None \<Rightarrow> False
              | Some d \<Rightarrow>
                  map recovery_history (ss_components (simulate_step (simulate_step d)))
                    = [[], [2], [], [1], [1]]
                  \<and> recovery_mean (ss_components (simulate_step (simulate_step d))) = 4 / 3
                  \<and> mttr (simulate_step (simulate_step d))
                      = Inr (FloatVal (748723438050345 / 562949953421312))
                  \<and> mttr (simulate_step (simulate_step d)) \<noteq> Inr (FloatVal (4 / 3)))))
   \<and> to_double (133 / 100) = 748723438050345 / 562949953421312
   \<and> (case inject_failure Net init of
         None \<Rightarrow> False
       | Some s \<Rightarrow>
           map recovery_history (all_components (simulate 4 s)) = [[3], [], [], [1], [1]]
           \<and> recovery_mean (all_components (simulate 4 s)) = 5 / 3
           \<and> calculate_mttr (simulate 4 s)
               = Inr (FloatVal (7505999378950827 / 4503599627370496))
           \<and> calculate_mttr (simulate 4 s) \<noteq> Inr (FloatVal (5 / 3)))"
proof (intro conjI)
  show "case dash_inject_failure (Db 0) dash_init of
      None \<Rightarrow> False
    | Some d1 \<Rightarrow>
        (case dash_inject_failure (Srv 0) d1 of
           None \<Rightarrow> False
         | Some d2 \<Rightarrow>
             (case dash_inject_failure (Srv 1) d2 of
                None \<Rightarrow> False
              | Some d \<Rightarrow>
                  map recovery_history (ss_components (simulate_step (simulate_step d)))
                    = [[], [2], [], [1], [1]]
                  \<and> recovery_mean (ss_components (simulate_step (simulate_step d))) = 4 / 3
                  \<and> mttr (simulate_step (simulate_step d))
                      = Inr (FloatVal (748723438050345 / 562949953421312))
                  \<and> mttr (simulate_step (simulate_step d)) \<noteq> Inr (FloatVal (4 / 3))))"
    by code_simp
  show "to_double (133 / 100) = 748723438050345 / 562949953421312"
    by code_simp
  show "case inject_failure Net init of
         None \<Rightarrow> False
       | Some s \<Rightarrow>
           map recovery_history (all_components (simulate 4 s)) = [[3], [], [], [1], [1]]
           \<and> recovery_mean (all_components (simulate 4 s)) = 5 / 3
           \<and> calculate_mttr (simulate 4 s)
               = Inr (FloatVal (7505999378950827 / 4503599627370496))
           \<and> calculate_mttr (simulate 4 s) \<noteq> Inr (FloatVal (5 / 3))"
    unfolding simulate_4 by code_simp
qed

section \<open>The resilience score (C5)\<close>




section \<open>Failure time and status (C9)\<close>

text \<open>
  C9. In every state reachable from the baseline by injections, loop iterations and
  resets, a component has a failure time exactly when it is down.
\<close>

theorem failed_iff_down_since:
  "reachable s \<Longrightarrow> c \<in> set (all_components s) \<Longrightarrow>
     (down_since c \<noteq> None) = (status c = DOWN)"
proof -
  assume r: "reachable s" and c: "c \<in> set (all_components s)"
  have "all_ok status_consistent s"
    using r
  proof (rule reachable_all_ok)
    show "all_ok status_consistent init"
      by (simp add: all_ok_def init_def Component_def status_consistent_def)
  qed (auto simp: status_consistent_def fail_now_def recover_component_def reset_component_def
      split: option.splits)
  with c show ?thesis
    by (simp add: all_ok_iff status_consistent_def)
qed

theorem failed_iff_down_since_witness:
  "reachable (simulate 3 init)
   \<and> servers (simulate 3 init) ! 0 \<in> set (all_components (simulate 3 init))
   \<and> status (servers (simulate 3 init) ! 0) = DOWN
   \<and> down_since (servers (simulate 3 init) ! 0) = Some 3
   \<and> network (simulate 3 init) \<in> set (all_components (simulate 3 init))
   \<and> status (network (simulate 3 init)) = UP
   \<and> down_since (network (simulate 3 init)) = None"
proof -
  have r: "reachable (simulate 3 init)"
    by (rule reachable_simulate) (rule r_init)
  have len: "length (servers (simulate 3 init)) = 2"
    unfolding simulate_3 by code_simp
  have m: "servers (simulate 3 init) ! 0 \<in> set (all_components (simulate 3 init))"
    using len by (simp add: all_components_def)
  have n: "network (simulate 3 init) \<in> set (all_components (simulate 3 init))"
    by (simp add: all_components_def)
  have d: "status (servers (simulate 3 init) ! 0) = DOWN"
    unfolding simulate_3 by code_simp
  have ds: "down_since (servers (simulate 3 init) ! 0) = Some 3"
    unfolding simulate_3 by code_simp
  have u: "status (network (simulate 3 init)) = UP"
    unfolding simulate_3 by code_simp
  have "down_since (network (simulate 3 init)) = None"
    using failed_iff_down_since [OF r n] u by simp
  with r m d ds n u show ?thesis
    by simp
qed

section \<open>Recovery (C6)\<close>

lemma recover_components_all:
  "all_components (recover_components s) =
     map (recover_component (current_time s)) (all_components s)"
  by (simp add: recover_components_def all_components_def)

lemma recovery_history_bound:
  assumes r: "reachable s" and c: "c \<in> set (all_components s)"
    and h: "h \<in> set (recovery_history c)"
  shows "recovery_time c \<le> h"
proof -
  have "all_ok history_ok s"
    using r
  proof (rule reachable_all_ok)
    show "all_ok history_ok init"
      by (simp add: all_ok_def init_def Component_def history_ok_def)
  qed (auto simp: history_ok_def fail_now_def recover_component_def reset_component_def
      split: option.splits)
  with c h show ?thesis
    by (auto simp: all_ok_iff history_ok_def list_all_iff)
qed

text \<open>
  C6. A component that is down since \<open>d\<close> recovers at time \<open>t\<close> exactly when
  \<open>t - d \<ge> recovery_time\<close>: it is then up with load 0, not degraded, without failure time,
  and \<open>t - d\<close> is appended to its history. Every other component is left as it is.
  \<open>recover_components\<close> does this to every component, and in every reachable state every
  entry of a recovery history is at least the recovery time of its component.
\<close>

theorem recover_component_transition:
  "(down_since c = Some d \<and> status c = DOWN \<and> recovery_time c \<le> t - d \<longrightarrow>
      recover_component t c =
        c\<lparr>status := UP, load := 0, degraded := False, down_since := None,
          recovery_history := recovery_history c @ [t - d]\<rparr>)
   \<and> (\<not> (\<exists>d. down_since c = Some d \<and> status c = DOWN \<and> recovery_time c \<le> t - d) \<longrightarrow>
        recover_component t c = c)
   \<and> all_components (recover_components s) =
        map (recover_component (current_time s)) (all_components s)
   \<and> (reachable s \<longrightarrow>
        (\<forall>c'\<in>set (all_components s). \<forall>h\<in>set (recovery_history c'). recovery_time c' \<le> h))"
proof (intro conjI)
  show "down_since c = Some d \<and> status c = DOWN \<and> recovery_time c \<le> t - d \<longrightarrow>
      recover_component t c =
        c\<lparr>status := UP, load := 0, degraded := False, down_since := None,
          recovery_history := recovery_history c @ [t - d]\<rparr>"
    by (simp add: recover_component_def)
  show "\<not> (\<exists>d. down_since c = Some d \<and> status c = DOWN \<and> recovery_time c \<le> t - d) \<longrightarrow>
      recover_component t c = c"
    by (simp add: recover_component_def split: option.splits)
  show "all_components (recover_components s) =
      map (recover_component (current_time s)) (all_components s)"
    by (rule recover_components_all)
  show "reachable s \<longrightarrow>
      (\<forall>c'\<in>set (all_components s). \<forall>h\<in>set (recovery_history c'). recovery_time c' \<le> h)"
    using recovery_history_bound by blast
qed

theorem recover_component_transition_witness:
  "recover_component 3 (fail_now 0 (network init)) =
     (network init)\<lparr>recovery_history := [3]\<rparr>
   \<and> recover_component 2 (fail_now 0 (network init)) = fail_now 0 (network init)
   \<and> reachable (simulate 4 init)
   \<and> recovery_history (servers (simulate 4 init) ! 0) = [1]
   \<and> recovery_time (servers (simulate 4 init) ! 0) \<le> 1"
proof -
  let ?c = "fail_now 0 (network init)"
  have c: "down_since ?c = Some 0 \<and> status ?c = DOWN \<and> recovery_time ?c = 3
      \<and> recovery_history ?c = []"
    by (simp add: fail_now_def init_def Component_def)
  have a: "recover_component 3 ?c = (network init)\<lparr>recovery_history := [3]\<rparr>"
    using recover_component_transition [of ?c 0 3 init] c
    by (simp add: fail_now_def init_def Component_def)
  have "\<not> (\<exists>d. down_since ?c = Some d \<and> status ?c = DOWN \<and> recovery_time ?c \<le> 2 - d)"
    using c by simp
  then have b: "recover_component 2 ?c = ?c"
    using recover_component_transition [of ?c 0 2 init] by blast
  have r: "reachable (simulate 4 init)"
    by (rule reachable_simulate) (rule r_init)
  have len: "length (servers (simulate 4 init)) = 2"
    unfolding simulate_4 by code_simp
  have m: "servers (simulate 4 init) ! 0 \<in> set (all_components (simulate 4 init))"
    using len by (simp add: all_components_def)
  have h: "recovery_history (servers (simulate 4 init) ! 0) = [1]"
    unfolding simulate_4 by code_simp
  have "recovery_time (servers (simulate 4 init) ! 0) \<le> 1"
    using recover_component_transition [of ?c 0 3 "simulate 4 init"] r m h by auto
  with a b r h show ?thesis
    by simp
qed

section \<open>One iteration of the simulation loop (C3)\<close>

lemma step_phases:
  "step t s =
     recover_components (record_system_down (accrue_cost (distribute_traffic 120
       (update_servers (update_databases (s\<lparr>current_time := t\<rparr>))))))"
  by (simp only: step_def Let_def)

lemma current_time_update_databases [simp]:
  "current_time (update_databases s) = current_time s"
  by (simp add: update_databases_def Let_def)

lemma current_time_update_servers [simp]:
  "current_time (update_servers s) = current_time s"
  by (simp add: update_servers_def Let_def)

lemma current_time_distribute_traffic [simp]:
  "current_time (distribute_traffic tt s) = current_time s"
  by (simp add: distribute_traffic_def Let_def)

lemma current_time_accrue_cost [simp]: "current_time (accrue_cost s) = current_time s"
  by (simp add: accrue_cost_def)

lemma current_time_record_system_down [simp]:
  "current_time (record_system_down s) = current_time s"
  by (simp add: record_system_down_def)

lemma current_time_recover_components [simp]:
  "current_time (recover_components s) = current_time s"
  by (simp add: recover_components_def)







section \<open>The degraded flag (C10)\<close>

lemma keeps_refl: "keeps c c"
  by (simp add: keeps_def)

lemma keeps_trans: "keeps a b \<Longrightarrow> keeps b c \<Longrightarrow> keeps a c"
  by (simp add: keeps_def)

lemma fail_now_keeps: "keeps c (fail_now t c)"
  by (simp add: keeps_def fail_now_def)

lemma update_component_flag: "keeps c (fst (update_component t deps c))"
  by (simp add: keeps_def update_component_def fail_now_def Let_def)

lemma balance_flag: "keeps c (fst (balance t share c))"
  by (simp add: keeps_def balance_def fail_now_def Let_def)

lemma update_component_fails_flag:
  "degraded (fst (update_component t deps c)) = degraded c"
  by (simp add: update_component_def fail_now_def Let_def)

lemma balance_fails_flag:
  "status c = UP \<Longrightarrow> status (fst (balance t share c)) = DOWN \<Longrightarrow>
     degraded (fst (balance t share c)) = degraded c"
  by (simp add: balance_def fail_now_def Let_def split: if_splits)

lemma servers_update_databases [simp]: "servers (update_databases s) = servers s"
  by (simp add: update_databases_def Let_def)

lemma servers_accrue_cost [simp]: "servers (accrue_cost s) = servers s"
  by (simp add: accrue_cost_def)

lemma servers_record_system_down [simp]: "servers (record_system_down s) = servers s"
  by (simp add: record_system_down_def)

lemma update_servers_nth:
  "i < length (servers s) \<Longrightarrow>
     length (servers (update_servers s)) = length (servers s)
     \<and> keeps (servers s ! i) (servers (update_servers s) ! i)"
  by (simp add: update_servers_def Let_def update_component_flag)

lemma distribute_traffic_nth:
  "i < length (servers s) \<Longrightarrow>
     length (servers (distribute_traffic tt s)) = length (servers s)
     \<and> keeps (servers s ! i) (servers (distribute_traffic tt s) ! i)"
  by (simp add: distribute_traffic_def Let_def balance_flag keeps_refl)

lemma before_recovery_nth:
  assumes i: "i < length (servers s)"
  shows "length (servers (record_system_down (accrue_cost (distribute_traffic 120
           (update_servers (update_databases (s\<lparr>current_time := t\<rparr>))))))) = length (servers s)
     \<and> keeps (servers s ! i)
         (servers (record_system_down (accrue_cost (distribute_traffic 120
           (update_servers (update_databases (s\<lparr>current_time := t\<rparr>)))))) ! i)"
proof -
  define s1 where "s1 = update_databases (s\<lparr>current_time := t\<rparr>)"
  define s2 where "s2 = update_servers s1"
  have 1: "servers s1 = servers s"
    by (simp add: s1_def)
  have 2: "length (servers s2) = length (servers s) \<and> keeps (servers s ! i) (servers s2 ! i)"
    using update_servers_nth [of i s1] i 1 by (simp add: s2_def)
  then have "i < length (servers s2)"
    using i by simp
  then have 3: "length (servers (distribute_traffic 120 s2)) = length (servers s2)
      \<and> keeps (servers s2 ! i) (servers (distribute_traffic 120 s2) ! i)"
    by (rule distribute_traffic_nth)
  from 2 3 have "length (servers (distribute_traffic 120 s2)) = length (servers s)
      \<and> keeps (servers s ! i) (servers (distribute_traffic 120 s2) ! i)"
    using keeps_trans by auto
  then show ?thesis
    by (simp add: s1_def s2_def)
qed

lemma step_server_nth:
  assumes i: "i < length (servers s)"
  shows "\<exists>c. keeps (servers s ! i) c \<and> servers (step t s) ! i = recover_component t c"
proof -
  define s5 where "s5 = record_system_down (accrue_cost (distribute_traffic 120
           (update_servers (update_databases (s\<lparr>current_time := t\<rparr>)))))"
  have k: "length (servers s5) = length (servers s) \<and> keeps (servers s ! i) (servers s5 ! i)"
    unfolding s5_def using i by (rule before_recovery_nth)
  have t: "current_time s5 = t"
    by (simp add: s5_def)
  have "servers (step t s) ! i = recover_component t (servers s5 ! i)"
    using k i t by (simp add: step_phases s5_def [symmetric] recover_components_def)
  with k show ?thesis
    by blast
qed

lemma step_clears_flag_only_by_recovery:
  assumes i: "i < length (servers s)" and d: "degraded (servers s ! i)"
    and n: "\<not> degraded (servers (step t s) ! i)"
  shows "status (servers (step t s) ! i) = UP
     \<and> (\<exists>d. recovery_history (servers (step t s) ! i) = recovery_history (servers s ! i) @ [d])"
proof -
  from step_server_nth [OF i, of t] obtain c where
    k: "keeps (servers s ! i) c" and e: "servers (step t s) ! i = recover_component t c"
    by blast
  from k d have dc: "degraded c" and h: "recovery_history c = recovery_history (servers s ! i)"
    by (simp_all add: keeps_def)
  from n e have "\<not> degraded (recover_component t c)"
    by simp
  with dc have "status (recover_component t c) = UP
      \<and> (\<exists>d. recovery_history (recover_component t c) = recovery_history c @ [d])"
    by (auto simp: recover_component_def split: option.splits if_splits)
  with e h show ?thesis
    by simp
qed

lemma inject_failure_flag:
  assumes j: "inject_failure r s = Some s'" and i: "i < length (servers s)"
    and d: "degraded (servers s ! i)"
  shows "degraded (servers s' ! i)"
proof (cases r)
  case Net
  with j d show ?thesis
    by (auto simp: inject_failure_def lookup_def store_def)
next
  case (Db k)
  with j d show ?thesis
    by (auto simp: inject_failure_def lookup_def store_def split: if_splits)
next
  case (Srv k)
  with j d i show ?thesis
    by (auto simp: inject_failure_def lookup_def store_def fail_now_def nth_list_update
        split: if_splits)
qed

text \<open>
  C10. No phase of the loop before the recovery, and no injection, clears the degraded
  flag of a server: the propagation, the load balancer and \<open>fail_now\<close> keep a set flag, and
  a transition from up to down by dependency overload or by traffic overload leaves the
  flag as it was. Where a loop iteration does clear the flag of a server, that server
  has recovered in it. So a server marked degraded that fails afterwards is down and
  degraded at once (both servers after three steps from the baseline) until it recovers
  (step 4) or the system is reset.
\<close>

theorem degraded_cleared_only_by_recovery_or_reset:
  "(degraded c \<longrightarrow>
      degraded (fst (update_component t deps c)) \<and> degraded (fst (balance t share c))
      \<and> degraded (fail_now t c))
   \<and> (status c = UP \<and> status (fst (update_component t deps c)) = DOWN \<longrightarrow>
        degraded (fst (update_component t deps c)) = degraded c)
   \<and> (status c = UP \<and> status (fst (balance t share c)) = DOWN \<longrightarrow>
        degraded (fst (balance t share c)) = degraded c)
   \<and> (inject_failure r s = Some s' \<and> i < length (servers s) \<and> degraded (servers s ! i) \<longrightarrow>
        degraded (servers s' ! i))
   \<and> (i < length (servers s) \<and> degraded (servers s ! i) \<and> \<not> degraded (servers (step t s) ! i) \<longrightarrow>
        status (servers (step t s) ! i) = UP
        \<and> (\<exists>d. recovery_history (servers (step t s) ! i) = recovery_history (servers s ! i) @ [d]))
   \<and> map (\<lambda>c. (status c, degraded c)) (servers (simulate 2 init)) = [(UP, True), (UP, True)]
   \<and> map (\<lambda>c. (status c, degraded c)) (servers (simulate 3 init)) = [(DOWN, True), (DOWN, True)]
   \<and> map (\<lambda>c. (status c, degraded c)) (servers (simulate 4 init)) = [(UP, False), (UP, False)]
   \<and> map (\<lambda>c. (status c, degraded c)) (servers (reset_system (simulate 3 init)))
       = [(UP, False), (UP, False)]"
proof (intro conjI)
  show "degraded c \<longrightarrow>
      degraded (fst (update_component t deps c)) \<and> degraded (fst (balance t share c))
      \<and> degraded (fail_now t c)"
    using update_component_flag [of c t deps] balance_flag [of c t share] fail_now_keeps [of c t]
    by (simp add: keeps_def)
  show "status c = UP \<and> status (fst (update_component t deps c)) = DOWN \<longrightarrow>
      degraded (fst (update_component t deps c)) = degraded c"
    by (simp add: update_component_fails_flag)
  show "status c = UP \<and> status (fst (balance t share c)) = DOWN \<longrightarrow>
      degraded (fst (balance t share c)) = degraded c"
    using balance_fails_flag by blast
  show "inject_failure r s = Some s' \<and> i < length (servers s) \<and> degraded (servers s ! i) \<longrightarrow>
      degraded (servers s' ! i)"
    using inject_failure_flag by blast
  show "i < length (servers s) \<and> degraded (servers s ! i) \<and> \<not> degraded (servers (step t s) ! i) \<longrightarrow>
      status (servers (step t s) ! i) = UP
      \<and> (\<exists>d. recovery_history (servers (step t s) ! i) = recovery_history (servers s ! i) @ [d])"
    using step_clears_flag_only_by_recovery by blast
  show "map (\<lambda>c. (status c, degraded c)) (servers (simulate 2 init)) = [(UP, True), (UP, True)]"
    unfolding simulate_2 by code_simp
  show "map (\<lambda>c. (status c, degraded c)) (servers (simulate 3 init)) = [(DOWN, True), (DOWN, True)]"
    unfolding simulate_3 by code_simp
  show "map (\<lambda>c. (status c, degraded c)) (servers (simulate 4 init)) = [(UP, False), (UP, False)]"
    unfolding simulate_4 by code_simp
  show "map (\<lambda>c. (status c, degraded c)) (servers (reset_system (simulate 3 init)))
       = [(UP, False), (UP, False)]"
    unfolding simulate_3 by code_simp
qed

theorem degraded_cleared_only_by_recovery_or_reset_witness:
  "degraded (servers (simulate 3 init) ! 0)
   \<and> status (servers (simulate 3 init) ! 0) = DOWN
   \<and> \<not> degraded (servers (step 4 (simulate 3 init)) ! 0)
   \<and> status (servers (step 4 (simulate 3 init)) ! 0) = UP
   \<and> recovery_history (servers (step 4 (simulate 3 init)) ! 0) = [1]"
proof -
  have len: "0 < length (servers (simulate 3 init))"
    unfolding simulate_3 by code_simp
  have d: "degraded (servers (simulate 3 init) ! 0)"
    unfolding simulate_3 by code_simp
  have st: "status (servers (simulate 3 init) ! 0) = DOWN"
    unfolding simulate_3 by code_simp
  have n: "\<not> degraded (servers (step 4 (simulate 3 init)) ! 0)"
    unfolding simulate_3 by code_simp
  have h: "recovery_history (servers (step 4 (simulate 3 init)) ! 0) = [1]"
    unfolding simulate_3 by code_simp
  have "status (servers (step 4 (simulate 3 init)) ! 0) = UP"
    using degraded_cleared_only_by_recovery_or_reset
      [of "servers (simulate 3 init) ! 0" 4 "[]" 0 Net "simulate 3 init" "simulate 3 init" 0]
      len d n by blast
  with d st n h show ?thesis
    by simp
qed

end
